theory Spec2Isabelle
  imports Main "HOL-Library.Word"
begin

section \<open>Data model of \<^verbatim>\<open>rsync_client.go\<close>\<close>

type_synonym byte = "8 word"

text \<open>
  Go \<^verbatim>\<open>error\<close> values. \<^verbatim>\<open>nil\<close> is \<open>None\<close> of \<open>go_error option\<close>.
  \<open>EOF\<close> is \<^verbatim>\<open>io.EOF\<close>; \<open>Wrapf e msg\<close> is what \<^verbatim>\<open>errors.Wrapf(e, msg)\<close> returns
  for a non-nil \<open>e\<close>; \<open>ErrorString\<close> stands for every other error value
  (\<^verbatim>\<open>context.Canceled\<close>, an I/O failure, ...).
\<close>

datatype go_error = EOF | ErrorString string | Wrapf go_error string

text \<open>
  Modelled from the spec: the struct \<^verbatim>\<open>BlockChecksum\<close> is declared outside
  \<^verbatim>\<open>rsync_client.go\<close>. Its fields are the four that \<^verbatim>\<open>Sync\<close> reads
  (\<^verbatim>\<open>Index\<close>, \<^verbatim>\<open>Weak\<close>, \<^verbatim>\<open>Strong\<close>, \<^verbatim>\<open>Error\<close>), with the widths the spec gives
  and that the map key type \<^verbatim>\<open>uint32\<close> and \<^verbatim>\<open>bytes.Compare\<close> confirm. The fields
  \<^verbatim>\<open>Index\<close> and \<^verbatim>\<open>Error\<close> carry the prefix \<open>BC_\<close> here, since a record field name is
  global in a theory and \<^verbatim>\<open>BlockOperation\<close> has fields of the same names.
\<close>

record BlockChecksum =
  BC_Index :: "64 word"
  Weak :: "32 word"
  Strong :: "byte list"
  BC_Error :: "go_error option"

text \<open>
  Modelled from the spec: the struct \<^verbatim>\<open>BlockOperation\<close> is declared outside
  \<^verbatim>\<open>rsync_client.go\<close>. \<^verbatim>\<open>Index\<close> has the type of the counter \<^verbatim>\<open>index\<close>
  (\<^verbatim>\<open>uint64\<close>), \<^verbatim>\<open>IndexB\<close> the type of \<^verbatim>\<open>BlockChecksum.Index\<close>. A \<^verbatim>\<open>nil\<close> slice in
  \<^verbatim>\<open>Data\<close> is \<open>None\<close>, a non-nil slice (also an empty one) is \<open>Some\<close>.
\<close>

record BlockOperation =
  Index :: "64 word"
  IndexB :: "64 word"
  Data :: "byte list option"
  Error :: "go_error option"

text \<open>
  \<^verbatim>\<open>hash.Hash\<close> of the Go standard library: an object that accumulates the bytes
  written to it. \<^verbatim>\<open>Sum(b)\<close> appends the digest of the bytes written so far to \<open>b\<close>
  and returns the resulting slice; it neither hashes \<open>b\<close> nor changes the state.
  \<open>digest\<close> is the hash function the object implements, \<open>written\<close> the bytes it has
  been fed before \<^verbatim>\<open>Sync\<close> receives it.
\<close>

record Hash =
  digest :: "byte list \<Rightarrow> byte list"
  written :: "byte list"

definition Hash_Sum :: "Hash \<Rightarrow> byte list \<Rightarrow> byte list" where
  "Hash_Sum h b = b @ digest h (written h)"

text \<open>
  \<^verbatim>\<open>io.Reader\<close>: \<^verbatim>\<open>Read(p)\<close> is a function of the reader's state and of \<^verbatim>\<open>len(p)\<close>;
  it returns the bytes it stored in \<^verbatim>\<open>p[0:n]\<close> (so \<open>n\<close> is their number), the
  error, and the reader's next state. The interface's contract bounds \<open>n\<close> by
  \<^verbatim>\<open>len(p)\<close>.
\<close>

type_synonym 'r Reader = "'r \<Rightarrow> nat \<Rightarrow> byte list \<times> go_error option \<times> 'r"

definition Reader_conforms :: "'r Reader \<Rightarrow> bool" where
  "Reader_conforms Read = (\<forall>r n. length (fst (Read r n)) \<le> n)"

text \<open>
  \<^verbatim>\<open>context.Context\<close>: what the \<^verbatim>\<open>select\<close> at the head of the loop sees in the
  iteration with the given number: \<open>None\<close> when \<^verbatim>\<open>ctx.Done()\<close> is still open,
  \<open>Some e\<close> when it is closed and \<^verbatim>\<open>ctx.Err()\<close> is \<open>e\<close>.
\<close>

type_synonym Context = "nat \<Rightarrow> go_error option"

text \<open>Channel types of Go and what each lets its holder do.\<close>

datatype chan_dir = Bidirectional | SendOnly | ReceiveOnly

fun may_receive :: "chan_dir \<Rightarrow> bool" where
  "may_receive Bidirectional = True"
| "may_receive SendOnly = False"
| "may_receive ReceiveOnly = True"

fun may_send :: "chan_dir \<Rightarrow> bool" where
  "may_send Bidirectional = True"
| "may_send SendOnly = True"
| "may_send ReceiveOnly = False"

section \<open>The checksum table (lines 17 to 27)\<close>

type_synonym ChecksumTable = "32 word \<rightharpoonup> BlockChecksum list"

text \<open>
  One pass of \<^verbatim>\<open>for sum := range c\<close>: \<^verbatim>\<open>t[k] = append(t[k], sum)\<close>, where \<^verbatim>\<open>t[k]\<close>
  of an absent key is the \<^verbatim>\<open>nil\<close> slice. The warning logged for an entry with an
  error has no effect on the table.
\<close>

definition table_insert :: "ChecksumTable \<Rightarrow> BlockChecksum \<Rightarrow> ChecksumTable" where
  "table_insert t cs =
     (let k = Weak cs
      in t(k \<mapsto> (case t k of None \<Rightarrow> [] | Some bs \<Rightarrow> bs) @ [cs]))"

definition build_table :: "BlockChecksum list \<Rightarrow> ChecksumTable" where
  "build_table c = foldl table_insert Map.empty c"

section \<open>One chunk (lines 58 to 72)\<close>

text \<open>
  The inner \<^verbatim>\<open>for _, b := range bs\<close>: every candidate is compared, and each one
  that compares equal overwrites \<^verbatim>\<open>op.IndexB\<close>; the loop has no \<^verbatim>\<open>break\<close>.
\<close>

fun range_bucket :: "Hash \<Rightarrow> byte list \<Rightarrow> BlockChecksum list \<Rightarrow> BlockOperation \<Rightarrow> BlockOperation" where
  "range_bucket shash block [] op = op"
| "range_bucket shash block (b # bs) op =
     range_bucket shash block bs
       (if Hash_Sum shash block = Strong b then op\<lparr>IndexB := BC_Index b\<rparr> else op)"

text \<open>
  \<open>rollingHash\<close> is a function of the package that \<^verbatim>\<open>rsync_client.go\<close> calls and
  does not define: it is a parameter. \<^verbatim>\<open>BlockOperation{Index: index}\<close> leaves the
  other fields at their zero values.
\<close>

definition chunk_op ::
  "(byte list \<Rightarrow> 32 word) \<Rightarrow> ChecksumTable \<Rightarrow> Hash \<Rightarrow> 64 word \<Rightarrow> byte list \<Rightarrow> BlockOperation" where
  "chunk_op rollingHash t shash index block =
     (let weak = rollingHash block;
          op = \<lparr>Index = index, IndexB = 0, Data = None, Error = None\<rparr>
      in case t weak of
           Some bs \<Rightarrow> range_bucket shash block bs op
         | None \<Rightarrow> op\<lparr>Data := Some block\<rparr>)"

section \<open>The scanner (lines 29 to 77)\<close>

text \<open>
  Where the goroutine is: \<open>Scanning\<close> at the head of an iteration of the loop;
  \<open>Blocked\<close> inside the send of line 74, when nobody takes the value;
  \<open>Cancelled\<close> and \<open>Failed\<close> once it has executed the send of line 40 or of
  line 53; \<open>Completed\<close> after the \<^verbatim>\<open>break\<close> of line 49.
\<close>

datatype status = Scanning | Blocked | Cancelled | Completed | Failed

text \<open>
  The state of the goroutine: the reader, the counter \<^verbatim>\<open>index\<close>, the operations
  of the send statements executed so far in their order (the last one is still in its
  send when that send has not returned), whether the deferred \<^verbatim>\<open>close(o)\<close> has run
  (it runs when the goroutine returns, and only then), and where the goroutine is.
  \<open>iter\<close> counts the iterations completed; it selects what the context shows.
\<close>

record 'r scanner =
  reader :: 'r
  index :: "64 word"
  sent :: "BlockOperation list"
  closed :: bool
  status :: status
  iter :: nat

text \<open>
  \<^verbatim>\<open>buffer := make([]byte, 0, DefaultBlockSize)\<close>: a slice of length 0 and capacity
  \<^verbatim>\<open>DefaultBlockSize\<close> (a constant declared outside this file, here a parameter).
  \<^verbatim>\<open>r.Read(buffer)\<close> passes the slice, whose length is what \<^verbatim>\<open>Read\<close> may fill.
\<close>

definition make_len :: "nat \<Rightarrow> nat \<Rightarrow> nat" where
  "make_len len cap = len"

definition buffer_len :: "nat \<Rightarrow> nat" where
  "buffer_len DefaultBlockSize = make_len 0 DefaultBlockSize"

definition error_op :: "go_error \<Rightarrow> BlockOperation" where
  "error_op e = \<lparr>Index = 0, IndexB = 0, Data = None, Error = Some e\<rparr>"

text \<open>
  One iteration of the outer \<^verbatim>\<open>for\<close>. The channel \<^verbatim>\<open>o\<close> is unbuffered: a send
  returns when a receiver has taken the value, and not before. \<open>taken j\<close> says
  whether the value of the send number \<open>j\<close> (counted from 0) is taken.
  \<^item> Lines 39 to 41 and 53 to 55: the goroutine executes the send of the operation
    with the error; it returns, and the deferred \<^verbatim>\<open>close(o)\<close> runs, when that send
    returns.
  \<^item> Line 49: \<^verbatim>\<open>break\<close> leaves the loop, the goroutine returns and
    \<^verbatim>\<open>close(o)\<close> runs.
  \<^item> Lines 74 and 75: the goroutine executes the send of the chunk's operation;
    \<^verbatim>\<open>index++\<close> and the next iteration follow when that send returns, and the
    goroutine stays in the send otherwise.
  A state that is not at the head of an iteration stays as it is.
\<close>

definition scan_iter ::
  "(nat \<Rightarrow> bool) \<Rightarrow> (byte list \<Rightarrow> 32 word) \<Rightarrow> nat \<Rightarrow> Context \<Rightarrow> 'r Reader \<Rightarrow> ChecksumTable \<Rightarrow> Hash
     \<Rightarrow> 'r scanner \<Rightarrow> 'r scanner" where
  "scan_iter taken rollingHash DefaultBlockSize ctx Read t shash s =
     (if status s \<noteq> Scanning then s
      else case ctx (iter s) of
        Some e \<Rightarrow>
          s\<lparr>sent := sent s @ [error_op e], closed := taken (length (sent s)),
            status := Cancelled\<rparr>
      | None \<Rightarrow>
          (case Read (reader s) (buffer_len DefaultBlockSize) of
             (block, err, r') \<Rightarrow>
               (case err of
                  Some e \<Rightarrow>
                    if e = EOF
                    then s\<lparr>reader := r', closed := True, status := Completed\<rparr>
                    else s\<lparr>reader := r',
                           sent := sent s @ [error_op (Wrapf e ''failed reading file'')],
                           closed := taken (length (sent s)), status := Failed\<rparr>
                | None \<Rightarrow>
                    if taken (length (sent s))
                    then s\<lparr>reader := r',
                           index := index s + 1,
                           sent := sent s @ [chunk_op rollingHash t shash (index s) block],
                           iter := Suc (iter s)\<rparr>
                    else s\<lparr>reader := r',
                           sent := sent s @ [chunk_op rollingHash t shash (index s) block],
                           status := Blocked\<rparr>)))"

text \<open>The loop, run for at most \<open>n\<close> iterations.\<close>

primrec scan ::
  "(nat \<Rightarrow> bool) \<Rightarrow> (byte list \<Rightarrow> 32 word) \<Rightarrow> nat \<Rightarrow> Context \<Rightarrow> 'r Reader \<Rightarrow> ChecksumTable \<Rightarrow> Hash
     \<Rightarrow> nat \<Rightarrow> 'r scanner \<Rightarrow> 'r scanner" where
  "scan taken rollingHash DefaultBlockSize ctx Read t shash 0 s = s"
| "scan taken rollingHash DefaultBlockSize ctx Read t shash (Suc n) s =
     scan taken rollingHash DefaultBlockSize ctx Read t shash n
       (scan_iter taken rollingHash DefaultBlockSize ctx Read t shash s)"

definition scanner_init :: "'r \<Rightarrow> 'r scanner" where
  "scanner_init r = \<lparr>reader = r, index = 0, sent = [], closed = False, status = Scanning, iter = 0\<rparr>"

text \<open>
  \<^verbatim>\<open>Sync\<close>: the table is built from the checksums received until \<open>c\<close> is closed
  (the list \<open>c\<close>); then the goroutine runs. \<open>Sync_run taken\<close> is its state after at
  most \<open>n\<close> iterations, when the values sent are taken as \<open>taken\<close> says.
\<close>

definition Sync_run ::
  "(nat \<Rightarrow> bool) \<Rightarrow> (byte list \<Rightarrow> 32 word) \<Rightarrow> nat \<Rightarrow> Context \<Rightarrow> 'r Reader \<Rightarrow> 'r \<Rightarrow> Hash
     \<Rightarrow> BlockChecksum list \<Rightarrow> nat \<Rightarrow> 'r scanner" where
  "Sync_run taken rollingHash DefaultBlockSize ctx Read r shash c n =
     scan taken rollingHash DefaultBlockSize ctx Read (build_table c) shash n (scanner_init r)"

text \<open>
  \<open>Sync_chan\<close> is the type of the channel made by \<^verbatim>\<open>make(chan<- BlockOperation)\<close>
  (line 31) and returned to the caller (lines 15 and 79). The goroutine and the caller
  hold the channel with this type and no other reference to it exists, so a value sent
  is taken only if this type allows its holder to receive and the holder wants to:
  \<open>Sync_taken wants\<close> is what \<open>taken\<close> is in the program as it is written.
  \<open>every_taken\<close> is a receiver that takes every value: the operations that the
  send statements carry one after the other are read off the runs with it.
\<close>

definition Sync_chan :: chan_dir where
  "Sync_chan = SendOnly"

definition Sync_taken :: "(nat \<Rightarrow> bool) \<Rightarrow> nat \<Rightarrow> bool" where
  "Sync_taken wants j = (may_receive Sync_chan \<and> wants j)"

definition every_taken :: "nat \<Rightarrow> bool" where
  "every_taken j = True"

section \<open>Readers, hashes and checksums to run the scanner on\<close>

text \<open>
  \<^verbatim>\<open>bytes.Reader\<close> of the Go standard library, state \<open>(s, i)\<close>: at the end of
  \<open>s\<close> it returns \<^verbatim>\<open>0, io.EOF\<close>; before the end it copies
  \<^verbatim>\<open>min(len(p), len(s) - i)\<close> bytes and returns a \<^verbatim>\<open>nil\<close> error.
\<close>

definition bytes_Reader_Read :: "(byte list \<times> nat) Reader" where
  "bytes_Reader_Read r n =
     (case r of (s, i) \<Rightarrow>
        if length s \<le> i then ([], Some EOF, (s, i))
        else (let d = take n (drop i s) in (d, None, (s, i + length d))))"

text \<open>
  A scripted reader (as those of \<^verbatim>\<open>testing/iotest\<close>): each call gives the next
  prepared answer, cut to \<^verbatim>\<open>len(p)\<close>; after the last one, \<^verbatim>\<open>io.EOF\<close>.
\<close>

fun script_Read :: "(byte list \<times> go_error option) list Reader" where
  "script_Read [] n = ([], Some EOF, [])"
| "script_Read ((d, e) # rest) n = (take n d, e, rest)"

text \<open>A small digest (length and byte sum) and a small weak checksum (byte sum).\<close>

definition sample_digest :: "byte list \<Rightarrow> byte list" where
  "sample_digest bs = [of_nat (length bs), foldr (+) bs 0]"

definition sample_rollingHash :: "byte list \<Rightarrow> 32 word" where
  "sample_rollingHash bs = foldr (\<lambda>b a. ucast b + a) bs 0"

definition fresh_hash :: Hash where
  "fresh_hash = \<lparr>digest = sample_digest, written = []\<rparr>"

definition never_cancelled :: Context where
  "never_cancelled k = None"

definition cancelled_from :: "nat \<Rightarrow> Context" where
  "cancelled_from k0 k = (if k0 \<le> k then Some (ErrorString ''context canceled'') else None)"

text \<open>
  Modelled from the spec: the receiver is not part of this repository. An operation
  with a literal payload contributes the payload; any other operation contributes the
  remote block at \<^verbatim>\<open>IndexB\<close> (nothing when the remote file has no such block).
  The operations that carry an error are not part of the file.
\<close>

definition op_bytes :: "byte list list \<Rightarrow> BlockOperation \<Rightarrow> byte list" where
  "op_bytes remote op =
     (case Data op of
        Some d \<Rightarrow> d
      | None \<Rightarrow> if unat (IndexB op) < length remote then remote ! unat (IndexB op) else [])"

definition reconstruct :: "byte list list \<Rightarrow> BlockOperation list \<Rightarrow> byte list" where
  "reconstruct remote ops = concat (map (op_bytes remote) (filter (\<lambda>op. Error op = None) ops))"

text \<open>
  Modelled from the spec: the chunks of a file are its non-overlapping segments of the
  block size, in the order of the file; the last one may be shorter.
\<close>

definition file_chunks :: "nat \<Rightarrow> byte list \<Rightarrow> byte list list" where
  "file_chunks DefaultBlockSize bs =
     map (\<lambda>i. take DefaultBlockSize (drop (i * DefaultBlockSize) bs))
       [0..<(length bs + DefaultBlockSize - 1) div DefaultBlockSize]"

section \<open>Notions the properties are stated with\<close>

text \<open>
  The operations that stand for a chunk are those without an error; the two
  operations that carry an error are made by \<open>error_op\<close>.
\<close>

definition chunk_ops :: "BlockOperation list \<Rightarrow> BlockOperation list" where
  "chunk_ops ops = filter (\<lambda>op. Error op = None) ops"

text \<open>
  The ordinals of the chunk operations are \<open>0, 1, ...\<close> (as \<^verbatim>\<open>uint64\<close> values);
  \<^verbatim>\<open>index\<close> is the number of iterations completed; there is one chunk operation for
  each of them, and one more for the send that has not returned.
\<close>

definition ordinals_ok :: "'r scanner \<Rightarrow> bool" where
  "ordinals_ok s =
     (map Index (chunk_ops (sent s)) = map of_nat [0..<length (chunk_ops (sent s))] \<and>
      index s = of_nat (iter s) \<and>
      length (chunk_ops (sent s)) = (if status s = Blocked then Suc (iter s) else iter s))"

text \<open>
  The comparison of line 64, \<^verbatim>\<open>bytes.Compare(shash.Sum(block), b.Strong) == 0\<close>.
\<close>

definition strong_match :: "Hash \<Rightarrow> byte list \<Rightarrow> BlockChecksum \<Rightarrow> bool" where
  "strong_match shash block b = (Hash_Sum shash block = Strong b)"

text \<open>
  A candidate whose strong hash is the strong hash of the chunk.
\<close>

definition exact_match :: "Hash \<Rightarrow> byte list \<Rightarrow> BlockChecksum \<Rightarrow> bool" where
  "exact_match shash block b = (Strong b = digest shash block)"

text \<open>
  With a receiver that takes every value, the channel is closed exactly when the loop
  has been left.
\<close>

definition closed_ok :: "'r scanner \<Rightarrow> bool" where
  "closed_ok s = (closed s = (status s \<noteq> Scanning) \<and> status s \<noteq> Blocked)"

text \<open>
  An operation whose payload is the empty, non-nil slice.
\<close>

definition empty_literal :: "BlockOperation \<Rightarrow> bool" where
  "empty_literal op = (Data op = Some [] \<and> Error op = None)"

text \<open>
  Inputs for the evaluations below: a checksum that shares the weak checksum of the
  empty chunk and has another strong hash; a hash object that was written to before
  the call; a bucket of two candidates that both carry the strong hash of the empty
  chunk; a reader whose third call fails; a reader whose first call fails.
\<close>

definition colliding_checksum :: BlockChecksum where
  "colliding_checksum = \<lparr>BC_Index = 3, Weak = 0, Strong = [0xFF, 0xFF], BC_Error = None\<rparr>"

definition used_hash :: Hash where
  "used_hash = \<lparr>digest = sample_digest, written = [1]\<rparr>"

definition two_matches :: "BlockChecksum list" where
  "two_matches =
     [\<lparr>BC_Index = 5, Weak = 0, Strong = [0, 0], BC_Error = None\<rparr>,
      \<lparr>BC_Index = 7, Weak = 0, Strong = [0, 0], BC_Error = None\<rparr>]"

definition failing_script :: "(byte list \<times> go_error option) list" where
  "failing_script =
     [([0x61, 0x62], None), ([0x63], None), ([], Some (ErrorString ''input/output error'')),
      ([0x64], None)]"

definition failing_at_once :: "(byte list \<times> go_error option) list" where
  "failing_at_once = [([], Some (ErrorString ''input/output error''))]"

section \<open>The loop, step by step\<close>

lemma scan_iter_terminal:
  "status s \<noteq> Scanning \<Longrightarrow> scan_iter taken rh D ctx Read t shash s = s"
  by (simp add: scan_iter_def)

lemma scan_terminal:
  "status s \<noteq> Scanning \<Longrightarrow> scan taken rh D ctx Read t shash n s = s"
  by (induction n) (simp_all add: scan_iter_terminal)

lemma scan_Suc_right:
  "scan taken rh D ctx Read t shash (Suc n) s
     = scan_iter taken rh D ctx Read t shash (scan taken rh D ctx Read t shash n s)"
  by (induction n arbitrary: s) simp_all

lemma scan_add:
  "scan taken rh D ctx Read t shash (m + n) s
     = scan taken rh D ctx Read t shash n (scan taken rh D ctx Read t shash m s)"
  by (induction m arbitrary: s) simp_all

lemma range_bucket_fields:
  "Index (range_bucket shash block bs op) = Index op \<and>
   Data (range_bucket shash block bs op) = Data op \<and>
   Error (range_bucket shash block bs op) = Error op"
  by (induction bs arbitrary: op) simp_all

lemma chunk_op_Index: "Index (chunk_op rh t shash i block) = i"
  by (simp add: chunk_op_def Let_def range_bucket_fields split: option.split)

lemma chunk_op_Error: "Error (chunk_op rh t shash i block) = None"
  by (simp add: chunk_op_def Let_def range_bucket_fields split: option.split)

lemma Error_error_op: "Error (error_op e) = Some e"
  by (simp add: error_op_def)

text \<open>
  The ways through one iteration: cancellation, end of input, a failed read, a chunk
  whose operation is taken, a chunk whose operation is not.
\<close>

lemma scan_iter_cancel:
  assumes "status s = Scanning" "ctx (iter s) = Some e"
  shows "scan_iter taken rh D ctx Read t shash s =
           s\<lparr>sent := sent s @ [error_op e], closed := taken (length (sent s)),
             status := Cancelled\<rparr>"
  using assms by (simp add: scan_iter_def)

lemma scan_iter_eof:
  assumes "status s = Scanning" "ctx (iter s) = None"
    "Read (reader s) (buffer_len D) = (block, Some EOF, r')"
  shows "scan_iter taken rh D ctx Read t shash s
           = s\<lparr>reader := r', closed := True, status := Completed\<rparr>"
  using assms by (simp add: scan_iter_def)

lemma scan_iter_fail:
  assumes "status s = Scanning" "ctx (iter s) = None"
    "Read (reader s) (buffer_len D) = (block, Some e, r')" "e \<noteq> EOF"
  shows "scan_iter taken rh D ctx Read t shash s =
           s\<lparr>reader := r', sent := sent s @ [error_op (Wrapf e ''failed reading file'')],
             closed := taken (length (sent s)), status := Failed\<rparr>"
  using assms by (simp add: scan_iter_def)

lemma scan_iter_chunk:
  assumes "status s = Scanning" "ctx (iter s) = None"
    "Read (reader s) (buffer_len D) = (block, None, r')" "taken (length (sent s))"
  shows "scan_iter taken rh D ctx Read t shash s =
           s\<lparr>reader := r', index := index s + 1,
             sent := sent s @ [chunk_op rh t shash (index s) block], iter := Suc (iter s)\<rparr>"
  using assms by (simp add: scan_iter_def)

lemma scan_iter_blocked:
  assumes "status s = Scanning" "ctx (iter s) = None"
    "Read (reader s) (buffer_len D) = (block, None, r')" "\<not> taken (length (sent s))"
  shows "scan_iter taken rh D ctx Read t shash s =
           s\<lparr>reader := r', sent := sent s @ [chunk_op rh t shash (index s) block],
             status := Blocked\<rparr>"
  using assms by (simp add: scan_iter_def)

lemma scan_iter_cases:
  obtains (terminal) "status s \<noteq> Scanning"
  | (cancel) e where "status s = Scanning" "ctx (iter s) = Some e"
  | (eof) block r' where "status s = Scanning" "ctx (iter s) = None"
      "Read (reader s) (buffer_len D) = (block, Some EOF, r')"
  | (fail) block e r' where "status s = Scanning" "ctx (iter s) = None"
      "Read (reader s) (buffer_len D) = (block, Some e, r')" "e \<noteq> EOF"
  | (chunk) block r' where "status s = Scanning" "ctx (iter s) = None"
      "Read (reader s) (buffer_len D) = (block, None, r')" "taken (length (sent s))"
  | (blocked) block r' where "status s = Scanning" "ctx (iter s) = None"
      "Read (reader s) (buffer_len D) = (block, None, r')" "\<not> taken (length (sent s))"
proof (cases "status s = Scanning")
  case False then show ?thesis using terminal by simp
next
  case True
  show ?thesis
  proof (cases "ctx (iter s)")
    case (Some e) then show ?thesis using cancel True by simp
  next
    case None
    obtain block err r' where R: "Read (reader s) (buffer_len D) = (block, err, r')"
      by (cases "Read (reader s) (buffer_len D)") auto
    show ?thesis
    proof (cases err)
      case None2: None
      then show ?thesis using chunk blocked True None R
        by (cases "taken (length (sent s))") auto
    next
      case (Some e)
      then show ?thesis using eof fail True None R by (cases "e = EOF") auto
    qed
  qed
qed

section \<open>The buffer, the readers and the channel\<close>

text \<open>
  The slice passed to \<^verbatim>\<open>Read\<close> has length 0 whatever the block size is, so a
  reader that keeps the contract of \<^verbatim>\<open>io.Reader\<close> stores no byte in it.
\<close>

lemma buffer_len_zero: "buffer_len D = 0"
  by (simp add: buffer_len_def make_len_def)

lemma conforming_read_empty:
  assumes "Reader_conforms Read"
  shows "fst (Read r (buffer_len D)) = []"
proof -
  from assms have "length (fst (Read r 0)) \<le> 0"
    unfolding Reader_conforms_def by blast
  then show ?thesis by (simp add: buffer_len_zero)
qed

lemma bytes_Reader_conforms: "Reader_conforms bytes_Reader_Read"
  by (simp add: Reader_conforms_def bytes_Reader_Read_def Let_def split: prod.split)

lemma script_Read_conforms: "Reader_conforms script_Read"
proof -
  have "length (fst (script_Read r n)) \<le> n" for r n
    by (cases "(r, n)" rule: script_Read.cases) simp_all
  then show ?thesis by (simp add: Reader_conforms_def)
qed

text \<open>No value sent on the channel that \<^verbatim>\<open>Sync\<close> makes is ever taken.\<close>

lemma Sync_taken_never: "Sync_taken wants j = False"
  by (simp add: Sync_taken_def Sync_chan_def)

lemmas eval_defs = Sync_run_def scanner_init_def scan_iter_def buffer_len_def make_len_def
  build_table_def table_insert_def chunk_op_def Hash_Sum_def error_op_def
  bytes_Reader_Read_def sample_digest_def sample_rollingHash_def fresh_hash_def
  never_cancelled_def cancelled_from_def every_taken_def Let_def

text \<open>
  \<^verbatim>\<open>bytes.Reader\<close> before the end of its data answers a read of no bytes with
  \<^verbatim>\<open>0, nil\<close> and stays where it is: with a receiver that takes every value the
  loop goes round for ever, and each round sends the operation of the empty chunk.
\<close>

lemma bytes_Reader_stuck:
  assumes "i < length bs"
  shows "bytes_Reader_Read (bs, i) (buffer_len D) = ([], None, (bs, i))"
  using assms by (simp add: bytes_Reader_Read_def buffer_len_zero)

lemma bytes_stuck_iter:
  assumes "status s = Scanning" "reader s = (bs, i)" "i < length bs"
  shows "scan_iter every_taken rh D never_cancelled bytes_Reader_Read t shash s =
           s\<lparr>index := index s + 1, sent := sent s @ [chunk_op rh t shash (index s) []],
             iter := Suc (iter s)\<rparr>"
proof -
  have "scan_iter every_taken rh D never_cancelled bytes_Reader_Read t shash s =
           s\<lparr>reader := (bs, i), index := index s + 1,
             sent := sent s @ [chunk_op rh t shash (index s) []], iter := Suc (iter s)\<rparr>"
    using assms(1)
    by (rule scan_iter_chunk)
      (simp_all add: never_cancelled_def every_taken_def assms bytes_Reader_stuck)
  then show ?thesis using assms(2) by simp
qed

lemma bytes_stuck_scan:
  assumes "status s = Scanning" "reader s = (bs, i)" "i < length bs" "closed s = False"
  shows "status (scan every_taken rh D never_cancelled bytes_Reader_Read t shash n s) = Scanning
       \<and> reader (scan every_taken rh D never_cancelled bytes_Reader_Read t shash n s) = (bs, i)
       \<and> closed (scan every_taken rh D never_cancelled bytes_Reader_Read t shash n s) = False
       \<and> index (scan every_taken rh D never_cancelled bytes_Reader_Read t shash n s)
           = index s + of_nat n
       \<and> sent (scan every_taken rh D never_cancelled bytes_Reader_Read t shash n s)
           = sent s @ map (\<lambda>k. chunk_op rh t shash (index s + of_nat k) []) [0..<n]"
proof (induction n)
  case 0
  show ?case using assms by simp
next
  case (Suc n)
  let ?sn = "scan every_taken rh D never_cancelled bytes_Reader_Read t shash n s"
  have S: "scan every_taken rh D never_cancelled bytes_Reader_Read t shash (Suc n) s
             = ?sn\<lparr>index := index ?sn + 1, sent := sent ?sn @ [chunk_op rh t shash (index ?sn) []],
                 iter := Suc (iter ?sn)\<rparr>"
    unfolding scan_Suc_right
    using Suc.IH assms(3) by (intro bytes_stuck_iter) simp_all
  show ?case unfolding S using Suc.IH by simp
qed

lemma reconstruct_empty_literals:
  "list_all empty_literal ops \<Longrightarrow> reconstruct remote ops = []"
  by (induction ops) (simp_all add: reconstruct_def op_bytes_def empty_literal_def)

lemma bytes_stuck_literal_iter:
  assumes "reader s = (bs, i)" "i < length bs" "list_all empty_literal (sent s)"
  shows "reader (scan_iter taken rh D never_cancelled bytes_Reader_Read Map.empty shash s) = (bs, i)
       \<and> list_all empty_literal
           (sent (scan_iter taken rh D never_cancelled bytes_Reader_Read Map.empty shash s))"
proof -
  have E: "empty_literal (chunk_op rh Map.empty shash (index s) [])"
    by (simp add: chunk_op_def empty_literal_def)
  have R: "bytes_Reader_Read (bs, i) (buffer_len D) = ([], None, (bs, i))"
    using assms(2) by (rule bytes_Reader_stuck)
  show ?thesis
    using assms E by (simp add: scan_iter_def never_cancelled_def R)
qed

lemma bytes_stuck_literals:
  assumes "reader s = (bs, i)" "i < length bs" "list_all empty_literal (sent s)"
  shows "list_all empty_literal
           (sent (scan taken rh D never_cancelled bytes_Reader_Read Map.empty shash n s))"
  using assms
proof (induction n arbitrary: s)
  case 0
  then show ?case by simp
next
  case (Suc n)
  from bytes_stuck_literal_iter[OF Suc.prems]
  have "reader (scan_iter taken rh D never_cancelled bytes_Reader_Read Map.empty shash s) = (bs, i)"
    and "list_all empty_literal
           (sent (scan_iter taken rh D never_cancelled bytes_Reader_Read Map.empty shash s))"
    by simp_all
  from Suc.IH[OF this(1) Suc.prems(2) this(2)] show ?case by simp
qed

section \<open>Buckets and matches\<close>

text \<open>
  The bucket of a weak checksum holds the checksums with that weak value in the
  order of their arrival; the inner loop leaves in \<^verbatim>\<open>IndexB\<close> the index of the
  last candidate that compares equal.
\<close>

lemma range_bucket_IndexB:
  "IndexB (range_bucket shash block bs op) =
     (if filter (strong_match shash block) bs = [] then IndexB op
      else BC_Index (last (filter (strong_match shash block) bs)))"
  by (induction bs arbitrary: op) (simp_all add: strong_match_def)

lemma foldl_table_insert:
  "foldl table_insert t c w =
     (if filter (\<lambda>b. Weak b = w) c = [] then t w
      else Some ((case t w of None \<Rightarrow> [] | Some bs \<Rightarrow> bs) @ filter (\<lambda>b. Weak b = w) c))"
proof (induction c arbitrary: t)
  case Nil
  show ?case by simp
next
  case (Cons b c)
  have T: "table_insert t b w = (if Weak b = w then Some ((case t w of None \<Rightarrow> [] | Some bs \<Rightarrow> bs) @ [b]) else t w)"
    by (auto simp add: table_insert_def Let_def)
  have "foldl table_insert t (b # c) w = foldl table_insert (table_insert t b) c w" by simp
  also have "\<dots> = (if filter (\<lambda>b. Weak b = w) c = [] then table_insert t b w
      else Some ((case table_insert t b w of None \<Rightarrow> [] | Some bs \<Rightarrow> bs) @ filter (\<lambda>b. Weak b = w) c))"
    by (rule Cons.IH)
  also have "\<dots> = (if filter (\<lambda>b. Weak b = w) (b # c) = [] then t w
      else Some ((case t w of None \<Rightarrow> [] | Some bs \<Rightarrow> bs) @ filter (\<lambda>b. Weak b = w) (b # c)))"
    unfolding T by simp
  finally show ?case .
qed

lemma build_table_bucket:
  "build_table c w =
     (if filter (\<lambda>b. Weak b = w) c = [] then None else Some (filter (\<lambda>b. Weak b = w) c))"
  by (simp add: build_table_def foldl_table_insert)

lemma filter_strong_weak:
  "filter (strong_match shash block) (filter (\<lambda>b. Weak b = w) c)
     = filter (\<lambda>b. Weak b = w \<and> strong_match shash block b) c"
  by (induction c) auto

lemma chunk_op_last_compared:
  assumes "filter (\<lambda>b. Weak b = rollingHash block \<and> strong_match shash block b) c \<noteq> []"
  shows "chunk_op rollingHash (build_table c) shash i block =
           \<lparr>Index = i,
            IndexB = BC_Index (last (filter (\<lambda>b. Weak b = rollingHash block \<and> strong_match shash block b) c)),
            Data = None, Error = None\<rparr>"
proof -
  let ?w = "rollingHash block"
  let ?bs = "filter (\<lambda>b. Weak b = ?w) c"
  from assms have ne: "?bs \<noteq> []" by (auto simp: filter_empty_conv)
  then have T: "build_table c ?w = Some ?bs" by (simp add: build_table_bucket)
  let ?op = "range_bucket shash block ?bs \<lparr>Index = i, IndexB = 0, Data = None, Error = None\<rparr>"
  have C: "chunk_op rollingHash (build_table c) shash i block = ?op"
    by (simp add: chunk_op_def T)
  have "IndexB ?op = BC_Index (last (filter (\<lambda>b. Weak b = ?w \<and> strong_match shash block b) c))"
    using assms by (simp add: range_bucket_IndexB filter_strong_weak)
  moreover have "Index ?op = i" "Data ?op = None" "Error ?op = None"
    by (simp_all add: range_bucket_fields)
  ultimately show ?thesis unfolding C by (cases ?op) simp
qed

lemma chunk_op_miss:
  assumes "t (rollingHash block) = Some bs" "filter (strong_match shash block) bs = []"
  shows "chunk_op rollingHash t shash i block = \<lparr>Index = i, IndexB = 0, Data = None, Error = None\<rparr>"
proof -
  let ?op = "range_bucket shash block bs \<lparr>Index = i, IndexB = 0, Data = None, Error = None\<rparr>"
  have C: "chunk_op rollingHash t shash i block = ?op"
    using assms by (simp add: chunk_op_def)
  have "IndexB ?op = 0" using assms by (simp add: range_bucket_IndexB)
  moreover have "Index ?op = i" "Data ?op = None" "Error ?op = None"
    by (simp_all add: range_bucket_fields)
  ultimately show ?thesis unfolding C by (cases ?op) simp
qed

lemma chunk_op_absent:
  assumes "t (rollingHash block) = None"
  shows "chunk_op rollingHash t shash i block = \<lparr>Index = i, IndexB = 0, Data = Some block, Error = None\<rparr>"
  using assms by (simp add: chunk_op_def)

text \<open>
  For the empty chunk and a hash object that nothing was written to, the value that
  line 64 compares is the strong hash of the chunk.
\<close>

lemma Hash_Sum_fresh_empty: "written shash = [] \<Longrightarrow> Hash_Sum shash [] = digest shash []"
  by (simp add: Hash_Sum_def)

section \<open>Ordinals and closure along the runs\<close>

text \<open>
  What holds of the numbering in every run: the chunk operations carry
  \<open>0, 1, ...\<close> in the order of the sends, one for each iteration completed.
\<close>

lemma ordinals_ok_init: "ordinals_ok (scanner_init r)"
  by (simp add: ordinals_ok_def scanner_init_def chunk_ops_def)

lemma ordinals_ok_iter:
  assumes "ordinals_ok s"
  shows "ordinals_ok (scan_iter taken rh D ctx Read t shash s)"
proof (cases rule: scan_iter_cases[where s=s and ctx=ctx and Read=Read and D=D and taken=taken])
  case terminal
  then show ?thesis using assms by (simp add: scan_iter_terminal)
next
  case (cancel e)
  then show ?thesis using assms
    by (simp add: scan_iter_cancel ordinals_ok_def chunk_ops_def Error_error_op)
next
  case (eof block r')
  then show ?thesis using assms
    by (simp add: scan_iter_eof ordinals_ok_def)
next
  case (fail block e r')
  then show ?thesis using assms
    by (simp add: scan_iter_fail ordinals_ok_def chunk_ops_def Error_error_op)
next
  case (chunk block r')
  then show ?thesis using assms
    by (simp add: scan_iter_chunk ordinals_ok_def chunk_ops_def chunk_op_Error chunk_op_Index)
next
  case (blocked block r')
  then show ?thesis using assms
    by (simp add: scan_iter_blocked ordinals_ok_def chunk_ops_def chunk_op_Error chunk_op_Index)
qed

lemma ordinals_ok_scan:
  "ordinals_ok s \<Longrightarrow> ordinals_ok (scan taken rh D ctx Read t shash n s)"
  by (induction n arbitrary: s) (simp_all add: ordinals_ok_iter)

lemma ordinals_follow_iterations:
  "ordinals_ok (Sync_run taken rollingHash DefaultBlockSize ctx Read r shash c n)"
  unfolding Sync_run_def by (rule ordinals_ok_scan) (rule ordinals_ok_init)

text \<open>
  With a receiver that takes every value, the deferred \<^verbatim>\<open>close(o)\<close> has run
  exactly when the loop has been left.
\<close>

lemma closed_ok_iter:
  assumes "closed_ok s"
  shows "closed_ok (scan_iter every_taken rh D ctx Read t shash s)"
proof (cases rule: scan_iter_cases[where s=s and ctx=ctx and Read=Read and D=D and taken=every_taken])
  case terminal
  then show ?thesis using assms by (simp add: scan_iter_terminal)
next
  case (cancel e)
  then show ?thesis by (simp add: scan_iter_cancel closed_ok_def every_taken_def)
next
  case (eof block r')
  then show ?thesis by (simp add: scan_iter_eof closed_ok_def)
next
  case (fail block e r')
  then show ?thesis by (simp add: scan_iter_fail closed_ok_def every_taken_def)
next
  case (chunk block r')
  then show ?thesis using assms by (simp add: scan_iter_chunk closed_ok_def)
next
  case (blocked block r')
  then show ?thesis by (simp add: every_taken_def)
qed

lemma closed_ok_scan: "closed_ok s \<Longrightarrow> closed_ok (scan every_taken rh D ctx Read t shash n s)"
  by (induction n arbitrary: s) (simp_all add: closed_ok_iter)

lemma closed_with_receiver:
  "closed_ok (Sync_run every_taken rollingHash DefaultBlockSize ctx Read r shash c n)"
  unfolding Sync_run_def by (rule closed_ok_scan) (simp add: closed_ok_def scanner_init_def)

text \<open>
  On the channel that \<^verbatim>\<open>Sync\<close> makes, the goroutine stays in the first send it
  executes.
\<close>

lemma stays_in_send:
  assumes "status s = Scanning" and "closed s = False"
    and "sent (scan_iter (Sync_taken wants) rh D ctx Read t shash s) \<noteq> sent s"
  shows "closed (scan (Sync_taken wants) rh D ctx Read t shash (Suc n) s) = False
       \<and> status (scan (Sync_taken wants) rh D ctx Read t shash (Suc n) s) \<in> {Blocked, Cancelled, Failed}
       \<and> length (sent (scan (Sync_taken wants) rh D ctx Read t shash (Suc n) s)) = Suc (length (sent s))"
proof -
  let ?s' = "scan_iter (Sync_taken wants) rh D ctx Read t shash s"
  have "closed ?s' = False \<and> status ?s' \<in> {Blocked, Cancelled, Failed}
        \<and> length (sent ?s') = Suc (length (sent s))"
  proof (cases rule: scan_iter_cases[where s=s and ctx=ctx and Read=Read and D=D
        and taken="Sync_taken wants"])
    case terminal
    then show ?thesis using assms by simp
  next
    case (cancel e)
    then show ?thesis by (simp add: scan_iter_cancel Sync_taken_never)
  next
    case (eof block r')
    then show ?thesis using assms(3) by (simp add: scan_iter_eof)
  next
    case (fail block e r')
    then show ?thesis by (simp add: scan_iter_fail Sync_taken_never)
  next
    case (chunk block r')
    then show ?thesis by (simp add: Sync_taken_never)
  next
    case (blocked block r')
    then show ?thesis using assms(2) by (simp add: scan_iter_blocked)
  qed
  moreover from this have "status ?s' \<noteq> Scanning" by auto
  then have "scan (Sync_taken wants) rh D ctx Read t shash (Suc n) s = ?s'"
    by (simp add: scan_terminal)
  ultimately show ?thesis by simp
qed

lemma unat_ordinals:
  assumes "k \<le> 2 ^ 64"
  shows "map (unat \<circ> (of_nat :: nat \<Rightarrow> 64 word)) [0..<k] = [0..<k]"
proof (rule nth_equalityI)
  show "length (map (unat \<circ> (of_nat :: nat \<Rightarrow> 64 word)) [0..<k]) = length [0..<k]" by simp
next
  fix i assume "i < length (map (unat \<circ> (of_nat :: nat \<Rightarrow> 64 word)) [0..<k])"
  then have "i < k" by simp
  then have "i < 2 ^ 64" using assms by simp
  then have "unat (of_nat i :: 64 word) = i" by (simp add: unat_of_nat)
  then show "map (unat \<circ> (of_nat :: nat \<Rightarrow> 64 word)) [0..<k] ! i = [0..<k] ! i"
    using \<open>i < k\<close> by simp
qed

text \<open>
  A file of one byte more than the block size has two chunks. On the channel that
  \<^verbatim>\<open>Sync\<close> makes, a file that is not empty gets as far as the send of its
  first operation.
\<close>

lemma two_chunks: "length (file_chunks (Suc D) (x # replicate (Suc D) y)) = 2"
proof -
  have "Suc (Suc D) + Suc D - 1 = 2 * Suc D" by arith
  then have "(Suc (Suc D) + Suc D - 1) div Suc D = (2 * Suc D) div Suc D" by (rule arg_cong)
  also have "\<dots> = 2" by (rule nonzero_mult_div_cancel_right) simp
  finally show ?thesis by (simp add: file_chunks_def)
qed

lemma first_send_only:
  "sent (Sync_run (Sync_taken wants) rollingHash DefaultBlockSize never_cancelled bytes_Reader_Read
      (b # bs, 0) shash c (Suc n)) = [chunk_op rollingHash (build_table c) shash 0 []]
   \<and> status (Sync_run (Sync_taken wants) rollingHash DefaultBlockSize never_cancelled bytes_Reader_Read
      (b # bs, 0) shash c (Suc n)) = Blocked"
proof -
  let ?s0 = "scanner_init (b # bs, 0 :: nat)"
  let ?i = "scan_iter (Sync_taken wants) rollingHash DefaultBlockSize never_cancelled bytes_Reader_Read
      (build_table c) shash ?s0"
  have I: "?i = ?s0\<lparr>reader := (b # bs, 0), sent := sent ?s0 @ [chunk_op rollingHash (build_table c) shash (index ?s0) []],
             status := Blocked\<rparr>"
    by (rule scan_iter_blocked)
      (simp_all add: scanner_init_def never_cancelled_def Sync_taken_never bytes_Reader_stuck)
  then have "status ?i \<noteq> Scanning" by simp
  then have "Sync_run (Sync_taken wants) rollingHash DefaultBlockSize never_cancelled bytes_Reader_Read
      (b # bs, 0) shash c (Suc n) = ?i"
    unfolding Sync_run_def by (simp add: scan_terminal)
  then have R: "Sync_run (Sync_taken wants) rollingHash DefaultBlockSize never_cancelled bytes_Reader_Read
      (b # bs, 0) shash c (Suc n)
      = ?s0\<lparr>reader := (b # bs, 0), sent := sent ?s0 @ [chunk_op rollingHash (build_table c) shash (index ?s0) []],
             status := Blocked\<rparr>"
    by (simp only: I)
  show ?thesis unfolding R by (simp add: scanner_init_def)
qed

section \<open>The properties\<close>

text \<open>
  C1. Claimed: a chunk whose weak checksum has a bucket and whose strong hash matches
  no candidate is sent as a literal payload. The code sets \<^verbatim>\<open>Data\<close> only when the
  weak checksum has no bucket (lemma \<open>chunk_op_miss\<close>): with one colliding
  checksum in the table, the operation of the first send has neither a payload nor
  a match, whether that send returns or not, and so has the operation made for the
  chunk \<^verbatim>\<open>"a"\<close>.
\<close>

theorem C1_collision_without_literal:
  "build_table [colliding_checksum] (sample_rollingHash []) = Some [colliding_checksum]
   \<and> Hash_Sum fresh_hash [] \<noteq> Strong colliding_checksum
   \<and> sent (Sync_run taken sample_rollingHash 6144 never_cancelled bytes_Reader_Read ([0x61], 0) fresh_hash
        [colliding_checksum] 1)
      = [\<lparr>Index = 0, IndexB = 0, Data = None, Error = None\<rparr>]
   \<and> chunk_op sample_rollingHash
        (build_table [\<lparr>BC_Index = 3, Weak = 0x61, Strong = [0xFF, 0xFF], BC_Error = None\<rparr>])
        fresh_hash 0 [0x61]
      = \<lparr>Index = 0, IndexB = 0, Data = None, Error = None\<rparr>"
  by (simp add: eval_defs colliding_checksum_def)

text \<open>
  C2. Claimed: the payloads and the referenced remote blocks, in order, give the local
  file back. For a local file \<open>b # bs\<close> read through \<^verbatim>\<open>bytes.Reader\<close>, with no
  remote checksum, every operation sent carries the empty payload, however long the
  loop runs and whichever of the values sent are taken: what the operations
  reconstruct is empty, not the file.
\<close>

theorem C2_roundtrip_fails:
  "reconstruct remote
     (sent (Sync_run taken rollingHash DefaultBlockSize never_cancelled bytes_Reader_Read (b # bs, 0) shash [] n))
     = []
   \<and> reconstruct remote
     (sent (Sync_run taken rollingHash DefaultBlockSize never_cancelled bytes_Reader_Read (b # bs, 0) shash [] n))
     \<noteq> b # bs"
proof -
  have "reader (scanner_init (b # bs, 0 :: nat)) = (b # bs, 0)" "0 < length (b # bs)"
    "list_all empty_literal (sent (scanner_init (b # bs, 0 :: nat)))"
    by (simp_all add: scanner_init_def)
  from bytes_stuck_literals[OF this]
  have "list_all empty_literal
     (sent (Sync_run taken rollingHash DefaultBlockSize never_cancelled bytes_Reader_Read (b # bs, 0) shash [] n))"
    unfolding Sync_run_def by (simp add: build_table_def)
  then show ?thesis by (simp add: reconstruct_empty_literals)
qed

text \<open>
  C3. Claimed: the value compared with \<^verbatim>\<open>Strong\<close> is the strong hash of the
  chunk. The value compared is \<^verbatim>\<open>shash.Sum(block)\<close>, the chunk followed by the digest
  of what \<^verbatim>\<open>shash\<close> was fed before: for the chunk \<^verbatim>\<open>"a"\<close> and a fresh hash
  it is not the digest of \<^verbatim>\<open>"a"\<close>, and a candidate that carries the digest of the
  chunk is not matched; the run on a hash object used before shows the same for the
  empty chunk that the scanner reads.
\<close>

theorem C3_compared_value:
  "Hash_Sum fresh_hash [0x61] = [0x61, 0, 0]
   \<and> digest fresh_hash [0x61] = [1, 0x61]
   \<and> chunk_op sample_rollingHash
        (build_table [\<lparr>BC_Index = 3, Weak = 0x61, Strong = digest fresh_hash [0x61], BC_Error = None\<rparr>])
        fresh_hash 0 [0x61]
      = \<lparr>Index = 0, IndexB = 0, Data = None, Error = None\<rparr>
   \<and> Hash_Sum used_hash [] = [1, 1]
   \<and> digest used_hash [] = [0, 0]
   \<and> sent (Sync_run taken sample_rollingHash 6144 never_cancelled bytes_Reader_Read ([0x61], 0) used_hash
        [\<lparr>BC_Index = 3, Weak = sample_rollingHash [], Strong = digest used_hash [], BC_Error = None\<rparr>] 1)
      = [\<lparr>Index = 0, IndexB = 0, Data = None, Error = None\<rparr>]"
  by (simp add: eval_defs used_hash_def)

text \<open>
  C4. Claimed: each iteration reads up to one block size of bytes. The buffer passed
  to \<^verbatim>\<open>Read\<close> has length 0: on a \<^verbatim>\<open>bytes.Reader\<close> with data \<open>b # bs\<close>, and
  with a receiver that takes every value, the scanner never moves the read position,
  never sees the end of the input, never closes the channel, and sends one operation
  per iteration.
\<close>

theorem C4_reads_nothing:
  "buffer_len DefaultBlockSize = 0
   \<and> status (Sync_run every_taken rollingHash DefaultBlockSize never_cancelled bytes_Reader_Read (b # bs, 0) shash c n) = Scanning
   \<and> reader (Sync_run every_taken rollingHash DefaultBlockSize never_cancelled bytes_Reader_Read (b # bs, 0) shash c n) = (b # bs, 0)
   \<and> closed (Sync_run every_taken rollingHash DefaultBlockSize never_cancelled bytes_Reader_Read (b # bs, 0) shash c n) = False
   \<and> length (sent (Sync_run every_taken rollingHash DefaultBlockSize never_cancelled bytes_Reader_Read (b # bs, 0) shash c n)) = n"
proof -
  have "status (scanner_init (b # bs, 0 :: nat)) = Scanning"
    "reader (scanner_init (b # bs, 0 :: nat)) = (b # bs, 0)" "0 < length (b # bs)"
    "closed (scanner_init (b # bs, 0 :: nat)) = False"
    by (simp_all add: scanner_init_def)
  from bytes_stuck_scan[OF this] show ?thesis
    unfolding Sync_run_def by (simp add: buffer_len_zero scanner_init_def)
qed

text \<open>
  C5. Claimed: the caller can receive the operations from the returned channel. The
  channel is made and returned with the type \<^verbatim>\<open>chan<- BlockOperation\<close>, which
  allows sending and does not allow receiving.
\<close>

theorem C5_send_only_channel:
  "Sync_chan = SendOnly \<and> \<not> may_receive Sync_chan \<and> may_send Sync_chan"
  by (simp add: Sync_chan_def)

text \<open>
  C6. When the check at the head of an iteration finds the context done, the scanner
  executes the send of one operation that carries the context's error and of nothing
  after it, however many further iterations are allowed and whichever of the values
  sent are taken; it reads no chunk and leaves \<^verbatim>\<open>index\<close> as it is.
\<close>

theorem C6_cancellation:
  assumes "status s = Scanning" and "ctx (iter s) = Some e"
  shows "sent (scan taken rollingHash DefaultBlockSize ctx Read t shash (Suc n) s)
           = sent s @ [\<lparr>Index = 0, IndexB = 0, Data = None, Error = Some e\<rparr>]
         \<and> status (scan taken rollingHash DefaultBlockSize ctx Read t shash (Suc n) s) = Cancelled
         \<and> reader (scan taken rollingHash DefaultBlockSize ctx Read t shash (Suc n) s) = reader s
         \<and> index (scan taken rollingHash DefaultBlockSize ctx Read t shash (Suc n) s) = index s"
proof -
  let ?s' = "scan_iter taken rollingHash DefaultBlockSize ctx Read t shash s"
  have S: "?s' = s\<lparr>sent := sent s @ [error_op e], closed := taken (length (sent s)),
             status := Cancelled\<rparr>"
    using assms by (rule scan_iter_cancel)
  then have "status ?s' \<noteq> Scanning" by simp
  then have "scan taken rollingHash DefaultBlockSize ctx Read t shash (Suc n) s = ?s'"
    by (simp add: scan_terminal)
  then show ?thesis by (simp add: S error_op_def)
qed

text \<open>
  C6 at a concrete run: two chunks, then the context is done.
\<close>

theorem C6_cancellation_witness:
  "status (Sync_run every_taken sample_rollingHash 6144 (cancelled_from 2) bytes_Reader_Read ([0x61], 0) fresh_hash [] 2) = Scanning
   \<and> cancelled_from 2 (iter (Sync_run every_taken sample_rollingHash 6144 (cancelled_from 2) bytes_Reader_Read ([0x61], 0) fresh_hash [] 2))
       = Some (ErrorString ''context canceled'')
   \<and> sent (scan every_taken sample_rollingHash 6144 (cancelled_from 2) bytes_Reader_Read (build_table []) fresh_hash (Suc 3)
        (Sync_run every_taken sample_rollingHash 6144 (cancelled_from 2) bytes_Reader_Read ([0x61], 0) fresh_hash [] 2))
      = [\<lparr>Index = 0, IndexB = 0, Data = Some [], Error = None\<rparr>,
         \<lparr>Index = 1, IndexB = 0, Data = Some [], Error = None\<rparr>,
         \<lparr>Index = 0, IndexB = 0, Data = None, Error = Some (ErrorString ''context canceled'')\<rparr>]"
proof -
  let ?s = "Sync_run every_taken sample_rollingHash 6144 (cancelled_from 2) bytes_Reader_Read ([0x61], 0) fresh_hash [] 2"
  have a: "status ?s = Scanning" by code_simp
  have b: "cancelled_from 2 (iter ?s) = Some (ErrorString ''context canceled'')" by code_simp
  have c: "sent ?s = [\<lparr>Index = 0, IndexB = 0, Data = Some [], Error = None\<rparr>,
         \<lparr>Index = 1, IndexB = 0, Data = Some [], Error = None\<rparr>]" by code_simp
  from C6_cancellation[where s = ?s and ctx = "cancelled_from 2" and e = "ErrorString ''context canceled''"
      and taken = every_taken
      and rollingHash = sample_rollingHash and DefaultBlockSize = 6144 and Read = bytes_Reader_Read
      and t = "build_table []" and shash = fresh_hash and n = 3] a b
  show ?thesis by (simp add: c)
qed

text \<open>
  C7. When \<^verbatim>\<open>Read\<close> returns an error other than \<^verbatim>\<open>io.EOF\<close>, the scanner executes
  the send of one operation that carries the wrapped error and of nothing after it,
  however many further iterations are allowed and whichever of the values sent are
  taken; the reader is not called again and \<^verbatim>\<open>index\<close> stays as it is.
\<close>

theorem C7_read_failure:
  assumes "status s = Scanning" and "ctx (iter s) = None"
    and "Read (reader s) (buffer_len DefaultBlockSize) = (block, Some e, r')" and "e \<noteq> EOF"
  shows "sent (scan taken rollingHash DefaultBlockSize ctx Read t shash (Suc n) s)
           = sent s @ [\<lparr>Index = 0, IndexB = 0, Data = None,
                        Error = Some (Wrapf e ''failed reading file'')\<rparr>]
         \<and> status (scan taken rollingHash DefaultBlockSize ctx Read t shash (Suc n) s) = Failed
         \<and> reader (scan taken rollingHash DefaultBlockSize ctx Read t shash (Suc n) s) = r'
         \<and> index (scan taken rollingHash DefaultBlockSize ctx Read t shash (Suc n) s) = index s"
proof -
  let ?s' = "scan_iter taken rollingHash DefaultBlockSize ctx Read t shash s"
  have S: "?s' = s\<lparr>reader := r', sent := sent s @ [error_op (Wrapf e ''failed reading file'')],
             closed := taken (length (sent s)), status := Failed\<rparr>"
    using assms by (rule scan_iter_fail)
  then have "status ?s' \<noteq> Scanning" by simp
  then have "scan taken rollingHash DefaultBlockSize ctx Read t shash (Suc n) s = ?s'"
    by (simp add: scan_terminal)
  then show ?thesis by (simp add: S error_op_def)
qed

text \<open>
  C7 at a concrete run: two chunks, then the read fails.
\<close>

theorem C7_read_failure_witness:
  "status (Sync_run every_taken sample_rollingHash 6144 never_cancelled script_Read failing_script fresh_hash [] 2) = Scanning
   \<and> never_cancelled (iter (Sync_run every_taken sample_rollingHash 6144 never_cancelled script_Read failing_script fresh_hash [] 2)) = None
   \<and> script_Read (reader (Sync_run every_taken sample_rollingHash 6144 never_cancelled script_Read failing_script fresh_hash [] 2))
        (buffer_len 6144) = ([], Some (ErrorString ''input/output error''), [([0x64], None)])
   \<and> ErrorString ''input/output error'' \<noteq> EOF
   \<and> sent (scan every_taken sample_rollingHash 6144 never_cancelled script_Read (build_table []) fresh_hash (Suc 3)
        (Sync_run every_taken sample_rollingHash 6144 never_cancelled script_Read failing_script fresh_hash [] 2))
      = [\<lparr>Index = 0, IndexB = 0, Data = Some [], Error = None\<rparr>,
         \<lparr>Index = 1, IndexB = 0, Data = Some [], Error = None\<rparr>,
         \<lparr>Index = 0, IndexB = 0, Data = None,
           Error = Some (Wrapf (ErrorString ''input/output error'') ''failed reading file'')\<rparr>]
   \<and> index (scan every_taken sample_rollingHash 6144 never_cancelled script_Read (build_table []) fresh_hash (Suc 3)
        (Sync_run every_taken sample_rollingHash 6144 never_cancelled script_Read failing_script fresh_hash [] 2)) = 2"
proof -
  let ?s = "Sync_run every_taken sample_rollingHash 6144 never_cancelled script_Read failing_script fresh_hash [] 2"
  have a: "status ?s = Scanning" by code_simp
  have b: "never_cancelled (iter ?s) = None" by (simp add: never_cancelled_def)
  have r: "script_Read (reader ?s) (buffer_len 6144)
             = ([], Some (ErrorString ''input/output error''), [([0x64], None)])" by code_simp
  have d: "ErrorString ''input/output error'' \<noteq> EOF" by simp
  have c: "sent ?s = [\<lparr>Index = 0, IndexB = 0, Data = Some [], Error = None\<rparr>,
         \<lparr>Index = 1, IndexB = 0, Data = Some [], Error = None\<rparr>]" by code_simp
  have i: "index ?s = 2" by code_simp
  from C7_read_failure[where s = ?s and ctx = never_cancelled and Read = script_Read
      and taken = every_taken
      and DefaultBlockSize = 6144 and block = "[]" and e = "ErrorString ''input/output error''"
      and r' = "[([0x64], None)]" and rollingHash = sample_rollingHash
      and t = "build_table []" and shash = fresh_hash and n = 3] a b r d
  show ?thesis by (simp add: c i)
qed

text \<open>
  C8. Claimed: for a file of \<open>k\<close> chunks the operations without an error carry
  exactly the ordinals \<open>0, ..., k - 1\<close>, in the order of the file's chunks. A file of
  one byte has one chunk. Read through \<^verbatim>\<open>bytes.Reader\<close>, with a receiver that
  takes every value, it gives after \<open>n\<close> iterations \<open>n\<close> operations with the
  ordinals \<open>0, ..., n - 1\<close>, each made from the empty chunk and none from the chunk
  of the file: after three iterations the ordinals are 0, 1, 2. On the channel that
  \<^verbatim>\<open>Sync\<close> makes, where no value is taken, a file of two chunks gets the one
  ordinal 0, again for the empty chunk. (The numbering itself follows the iterations
  in every run: lemma \<open>ordinals_follow_iterations\<close>.)
\<close>

theorem C8_ordinals_of_a_one_chunk_file:
  "file_chunks (Suc D) [b] = [[b]]
   \<and> sent (Sync_run every_taken rollingHash (Suc D) never_cancelled bytes_Reader_Read ([b], 0) shash c n)
       = map (\<lambda>k. chunk_op rollingHash (build_table c) shash (of_nat k) []) [0..<n]
   \<and> map Index (chunk_ops
        (sent (Sync_run every_taken rollingHash (Suc D) never_cancelled bytes_Reader_Read ([b], 0) shash c n)))
       = map of_nat [0..<n]
   \<and> map Index (chunk_ops
        (sent (Sync_run every_taken sample_rollingHash 6144 never_cancelled bytes_Reader_Read ([0x61], 0)
           fresh_hash [] 3)))
       = [0, 1, 2]
   \<and> length (file_chunks (Suc D) (x # replicate (Suc D) y)) = 2
   \<and> sent (Sync_run (Sync_taken wants) rollingHash (Suc D) never_cancelled bytes_Reader_Read
        (x # replicate (Suc D) y, 0) shash c (Suc n))
       = [chunk_op rollingHash (build_table c) shash 0 []]
   \<and> map Index (chunk_ops
        (sent (Sync_run (Sync_taken wants) rollingHash (Suc D) never_cancelled bytes_Reader_Read
           (x # replicate (Suc D) y, 0) shash c (Suc n))))
       = [0]"
proof -
  have F: "file_chunks (Suc D) [b] = [[b]]"
    by (simp add: file_chunks_def)
  have "status (scanner_init ([b], 0 :: nat)) = Scanning"
    "reader (scanner_init ([b], 0 :: nat)) = ([b], 0)" "0 < length [b]"
    "closed (scanner_init ([b], 0 :: nat)) = False"
    by (simp_all add: scanner_init_def)
  from bytes_stuck_scan[OF this]
  have S: "sent (Sync_run every_taken rollingHash (Suc D) never_cancelled bytes_Reader_Read ([b], 0) shash c n)
       = map (\<lambda>k. chunk_op rollingHash (build_table c) shash (of_nat k) []) [0..<n]"
    unfolding Sync_run_def by (simp add: scanner_init_def)
  have O: "map Index (chunk_ops
        (sent (Sync_run every_taken rollingHash (Suc D) never_cancelled bytes_Reader_Read ([b], 0) shash c n)))
       = map of_nat [0..<n]"
    unfolding S by (simp add: chunk_ops_def filter_map comp_def chunk_op_Error chunk_op_Index)
  have E: "map Index (chunk_ops
        (sent (Sync_run every_taken sample_rollingHash 6144 never_cancelled bytes_Reader_Read ([0x61], 0)
           fresh_hash [] 3)))
       = [0, 1, 2]"
    by code_simp
  have P: "sent (Sync_run (Sync_taken wants) rollingHash (Suc D) never_cancelled bytes_Reader_Read
        (x # replicate (Suc D) y, 0) shash c (Suc n))
       = [chunk_op rollingHash (build_table c) shash 0 []]"
    using first_send_only[where b = x and bs = "replicate (Suc D) y"] by blast
  have Q: "map Index (chunk_ops
        (sent (Sync_run (Sync_taken wants) rollingHash (Suc D) never_cancelled bytes_Reader_Read
           (x # replicate (Suc D) y, 0) shash c (Suc n))))
       = [0]"
    unfolding P by (simp add: chunk_ops_def chunk_op_Error chunk_op_Index)
  from F S O E two_chunks P Q show ?thesis by simp
qed

text \<open>
  C9 as stated fails: of two candidates that both carry the strong hash of the chunk
  (and both compare equal), the first arrived has index 5 and the operation sent
  refers to index 7.
\<close>

theorem C9_first_match_counterexample:
  "build_table two_matches (sample_rollingHash []) = Some two_matches
   \<and> map (exact_match fresh_hash []) two_matches = [True, True]
   \<and> map (strong_match fresh_hash []) two_matches = [True, True]
   \<and> BC_Index (hd (filter (exact_match fresh_hash []) two_matches)) = 5
   \<and> BC_Index (hd (filter (strong_match fresh_hash []) two_matches)) = 5
   \<and> sent (Sync_run every_taken sample_rollingHash 6144 never_cancelled bytes_Reader_Read ([0x61], 0) fresh_hash
        two_matches 1)
      = [\<lparr>Index = 0, IndexB = 7, Data = None, Error = None\<rparr>]
   \<and> IndexB (hd (sent (Sync_run every_taken sample_rollingHash 6144 never_cancelled bytes_Reader_Read ([0x61], 0)
        fresh_hash two_matches 1)))
      \<noteq> BC_Index (hd (filter (exact_match fresh_hash []) two_matches))"
  by (simp add: eval_defs two_matches_def strong_match_def exact_match_def)

text \<open>
  C9, amended: first becomes last. When candidates of the chunk's weak-checksum bucket
  have a strong hash equal to the chunk's strong hash, the operation refers to the
  last of them in the order of arrival and carries no payload. The statement is made
  where the value that line 64 compares is the chunk's strong hash, as it is for the
  empty chunk and a hash object that nothing was written to (lemma
  \<open>Hash_Sum_fresh_empty\<close>); what the comparison does elsewhere is the subject
  of C3 and is neither promised nor denied here.
\<close>

theorem C9_last_match:
  assumes "Hash_Sum shash block = digest shash block"
    and "filter (\<lambda>b. Weak b = rollingHash block \<and> exact_match shash block b) c \<noteq> []"
  shows "chunk_op rollingHash (build_table c) shash i block =
           \<lparr>Index = i,
            IndexB = BC_Index (last (filter (\<lambda>b. Weak b = rollingHash block \<and> exact_match shash block b) c)),
            Data = None, Error = None\<rparr>"
proof -
  have M: "(\<lambda>b. Weak b = rollingHash block \<and> strong_match shash block b)
         = (\<lambda>b. Weak b = rollingHash block \<and> exact_match shash block b)"
    using assms(1) by (auto simp add: strong_match_def exact_match_def)
  have "filter (\<lambda>b. Weak b = rollingHash block \<and> strong_match shash block b) c \<noteq> []"
    unfolding M by (rule assms(2))
  then have "chunk_op rollingHash (build_table c) shash i block =
           \<lparr>Index = i,
            IndexB = BC_Index (last (filter (\<lambda>b. Weak b = rollingHash block \<and> strong_match shash block b) c)),
            Data = None, Error = None\<rparr>"
    by (rule chunk_op_last_compared[where rollingHash = rollingHash and block = block
          and shash = shash and c = c and i = i])
  then show ?thesis unfolding M .
qed

text \<open>
  C9 (amended) at the bucket of two matching candidates.
\<close>

theorem C9_last_match_witness:
  "Hash_Sum fresh_hash [] = digest fresh_hash []
   \<and> filter (\<lambda>b. Weak b = sample_rollingHash [] \<and> exact_match fresh_hash [] b) two_matches \<noteq> []
   \<and> chunk_op sample_rollingHash (build_table two_matches) fresh_hash 0 []
      = \<lparr>Index = 0, IndexB = 7, Data = None, Error = None\<rparr>"
proof -
  have e: "Hash_Sum fresh_hash [] = digest fresh_hash []"
    by (simp add: Hash_Sum_def fresh_hash_def)
  have h: "filter (\<lambda>b. Weak b = sample_rollingHash [] \<and> exact_match fresh_hash [] b) two_matches
             = two_matches"
    by (simp add: two_matches_def exact_match_def eval_defs)
  then have ne: "filter (\<lambda>b. Weak b = sample_rollingHash [] \<and> exact_match fresh_hash [] b) two_matches \<noteq> []"
    by (simp add: two_matches_def)
  have "chunk_op sample_rollingHash (build_table two_matches) fresh_hash 0 []
      = \<lparr>Index = 0, IndexB = BC_Index (last two_matches), Data = None, Error = None\<rparr>"
    using C9_last_match[where rollingHash = sample_rollingHash and block = "[]" and shash = fresh_hash
      and c = two_matches and i = 0, OF e ne]
    by (simp only: h)
  moreover have "BC_Index (last two_matches) = 7" by (simp add: two_matches_def)
  ultimately show ?thesis using e ne by simp
qed

text \<open>
  C10. Claimed: in every terminating case, also after a terminal error operation,
  the channel is closed. On the channel that \<^verbatim>\<open>Sync\<close> makes no value sent is
  ever taken (C5), so the send of the terminal operation does not return and the
  deferred \<^verbatim>\<open>close(o)\<close> does not run: after a cancellation and after a failed
  read the goroutine has executed the send of the one operation and the channel is
  never closed, however long the run. Only the end of the input, which involves no
  send, closes the channel. (With a receiver that takes every value the channel would
  be closed in all three cases: lemma \<open>closed_with_receiver\<close>.)
\<close>

theorem C10_no_close_after_terminal_send:
  "closed (Sync_run (Sync_taken wants) rollingHash DefaultBlockSize (cancelled_from 0) Read r shash c n) = False
   \<and> sent (Sync_run (Sync_taken wants) rollingHash DefaultBlockSize (cancelled_from 0) Read r shash c (Suc n))
       = [\<lparr>Index = 0, IndexB = 0, Data = None, Error = Some (ErrorString ''context canceled'')\<rparr>]
   \<and> status (Sync_run (Sync_taken wants) rollingHash DefaultBlockSize (cancelled_from 0) Read r shash c (Suc n))
       = Cancelled
   \<and> closed (Sync_run (Sync_taken wants) rollingHash DefaultBlockSize never_cancelled script_Read
        failing_at_once shash c n) = False
   \<and> sent (Sync_run (Sync_taken wants) rollingHash DefaultBlockSize never_cancelled script_Read
        failing_at_once shash c (Suc n))
       = [\<lparr>Index = 0, IndexB = 0, Data = None,
           Error = Some (Wrapf (ErrorString ''input/output error'') ''failed reading file'')\<rparr>]
   \<and> status (Sync_run (Sync_taken wants) rollingHash DefaultBlockSize never_cancelled script_Read
        failing_at_once shash c (Suc n)) = Failed
   \<and> closed (Sync_run (Sync_taken wants) rollingHash DefaultBlockSize never_cancelled bytes_Reader_Read
        ([], 0) shash c (Suc n)) = True
   \<and> status (Sync_run (Sync_taken wants) rollingHash DefaultBlockSize never_cancelled bytes_Reader_Read
        ([], 0) shash c (Suc n)) = Completed"
proof -
  let ?tk = "Sync_taken wants"
  let ?t = "build_table c"
  have T: "scan ?tk rollingHash DefaultBlockSize ctx Rd ?t shash (Suc m) s
             = scan_iter ?tk rollingHash DefaultBlockSize ctx Rd ?t shash s"
    if "status (scan_iter ?tk rollingHash DefaultBlockSize ctx Rd ?t shash s) \<noteq> Scanning"
    for ctx and Rd :: "'x Reader" and s m
    using that by (simp add: scan_terminal)
  have C: "scan_iter ?tk rollingHash DefaultBlockSize (cancelled_from 0) Read ?t shash (scanner_init r)
        = (scanner_init r)\<lparr>sent := [error_op (ErrorString ''context canceled'')], closed := False,
             status := Cancelled\<rparr>"
    by (simp add: scan_iter_def scanner_init_def cancelled_from_def Sync_taken_never)
  have F: "scan_iter ?tk rollingHash DefaultBlockSize never_cancelled script_Read ?t shash
             (scanner_init failing_at_once)
        = (scanner_init failing_at_once)\<lparr>reader := [],
             sent := [error_op (Wrapf (ErrorString ''input/output error'') ''failed reading file'')],
             closed := False, status := Failed\<rparr>"
    by (simp add: scan_iter_def scanner_init_def never_cancelled_def Sync_taken_never
        failing_at_once_def)
  have E: "scan_iter ?tk rollingHash DefaultBlockSize never_cancelled bytes_Reader_Read ?t shash
             (scanner_init ([], 0))
        = (scanner_init ([], 0))\<lparr>closed := True, status := Completed\<rparr>"
    by (simp add: scan_iter_def scanner_init_def never_cancelled_def bytes_Reader_Read_def)
  have C': "Sync_run ?tk rollingHash DefaultBlockSize (cancelled_from 0) Read r shash c (Suc m)
        = (scanner_init r)\<lparr>sent := [error_op (ErrorString ''context canceled'')], closed := False,
             status := Cancelled\<rparr>" for m
    unfolding Sync_run_def by (subst T) (simp_all add: C)
  have F': "Sync_run ?tk rollingHash DefaultBlockSize never_cancelled script_Read failing_at_once shash c (Suc m)
        = (scanner_init failing_at_once)\<lparr>reader := [],
             sent := [error_op (Wrapf (ErrorString ''input/output error'') ''failed reading file'')],
             closed := False, status := Failed\<rparr>" for m
    unfolding Sync_run_def by (subst T) (simp_all add: F)
  have E': "Sync_run ?tk rollingHash DefaultBlockSize never_cancelled bytes_Reader_Read ([], 0) shash c (Suc m)
        = (scanner_init ([], 0))\<lparr>closed := True, status := Completed\<rparr>" for m
    unfolding Sync_run_def by (subst T) (simp_all add: E)
  have I0: "closed (Sync_run ?tk rollingHash DefaultBlockSize ctx Rd r0 shash c 0) = False"
    for ctx and Rd :: "'x Reader" and r0
    by (simp add: Sync_run_def scanner_init_def)
  have C0: "closed (Sync_run ?tk rollingHash DefaultBlockSize (cancelled_from 0) Read r shash c n) = False"
  proof (cases n)
    case 0 then show ?thesis by (simp only: I0)
  next
    case (Suc m) then show ?thesis by (simp add: C')
  qed
  have F0: "closed (Sync_run ?tk rollingHash DefaultBlockSize never_cancelled script_Read
        failing_at_once shash c n) = False"
  proof (cases n)
    case 0 then show ?thesis by (simp only: I0)
  next
    case (Suc m) then show ?thesis by (simp add: F')
  qed
  show ?thesis
    using C0 F0 by (simp add: C' F' E' error_op_def)
qed

end
